theory Spec2Isabelle
  imports Complex_Main "HOL-Library.Sublist"
begin

section \<open>The actuator test script (main.py)\<close>

text \<open>
  The script drives two PWM lines of an H-bridge (extend on RPWM, retract on LPWM), an
  LED and a single PWM test line through MicroPython's \<^verbatim>\<open>machine\<close> module. Each
  entry point acquires its pins, runs timed steps inside \<^verbatim>\<open>try\<close>, catches
  \<^verbatim>\<open>KeyboardInterrupt\<close> and cleans up in \<^verbatim>\<open>finally\<close>.

  The embedding keeps that shape. Every call into \<^verbatim>\<open>machine\<close>, \<^verbatim>\<open>time\<close> or
  \<^verbatim>\<open>print\<close> is an event; a run is a function from the world before to a control-flow
  outcome and the world after, and the world holds the clock, the pending interruption
  and the events so far.
\<close>

subsection \<open>Numbers\<close>

text \<open>
  \<^verbatim>\<open>int(x)\<close> of a float truncates toward zero. Python's \<^verbatim>\<open>/\<close> on integers is
  true division; its float result is taken here as the exact quotient. For
  \<^verbatim>\<open>speed * 65535 / 100\<close> with an integer speed the two agree after \<^verbatim>\<open>int\<close> as long
  as the product is exactly representable: a correctly rounded quotient of an integer by
  100 is either exact or at least 1/100 away from the next integer.
\<close>

definition py_int :: "real \<Rightarrow> int" where
  "py_int x = (if 0 \<le> x then \<lfloor>x\<rfloor> else \<lceil>x\<rceil>)"

text \<open>\<^verbatim>\<open>int(speed * 65535 / 100)\<close>, lines 104, 145 and 175.\<close>

definition duty_cycle :: "int \<Rightarrow> int" where
  "duty_cycle speed = py_int (real_of_int (speed * 65535) / 100)"

text \<open>
  The specification's \<^verbatim>\<open>round\<close>: Python rounds to the nearest integer and a tie to
  the even neighbour.
\<close>

definition py_round :: "real \<Rightarrow> int" where
  "py_round x =
     (let f = \<lfloor>x\<rfloor>; r = x - of_int f
      in if r < 1 / 2 then f else if 1 / 2 < r then f + 1 else if even f then f else f + 1)"

text \<open>The duty cycle as the specification words it: \<^verbatim>\<open>round(speed_percent * 65535 / 100)\<close>.\<close>

definition spec_duty_cycle :: "int \<Rightarrow> int" where
  "spec_duty_cycle speed = py_round (real_of_int speed * 65535 / 100)"

subsection \<open>Events, the world and control flow\<close>

text \<open>
  The objects the script creates, named by the variable that holds them:
  \<^verbatim>\<open>led\<close> (test_led), \<^verbatim>\<open>actuator_pwm\<close> (test_pwm), \<^verbatim>\<open>extend_pwm\<close> / \<^verbatim>\<open>ext\<close>
  and \<^verbatim>\<open>retract_pwm\<close> / \<^verbatim>\<open>ret\<close> (the three actuator functions).
\<close>

datatype obj = Led | ActuatorPwm | ExtendPwm | RetractPwm

text \<open>An f-string is kept as its pieces; number formatting is not modelled.\<close>

datatype piece = Lit string | IntV int | NumV real

datatype event =
    Print "piece list"
  | NewPin obj int
  | NewPWM obj int int
  | Value obj int
  | DutyU16 obj int
  | Deinit obj
  | Sleep real
  | TimeTime real
  | KeyboardInterrupt

text \<open>
  \<open>NewPin h p\<close> is \<^verbatim>\<open>Pin(p, Pin.OUT)\<close>, \<open>NewPWM h p f\<close> is \<^verbatim>\<open>PWM(Pin(p), freq=f)\<close>,
  \<open>Value h v\<close> is \<^verbatim>\<open>h.value(v)\<close>, \<open>DutyU16 h v\<close> is \<^verbatim>\<open>h.duty_u16(v)\<close> with the
  argument as passed, \<open>TimeTime t\<close> is a call of \<^verbatim>\<open>time.time()\<close> that returned \<open>t\<close>,
  and \<open>KeyboardInterrupt\<close> marks the point where the exception was raised.
\<close>

record world =
  now :: real
  irq :: "nat option"
  log :: "event list"

text \<open>
  \<open>now\<close> is the clock: \<^verbatim>\<open>time.sleep(d)\<close> advances it by \<open>d\<close>, every other call is
  immediate, and \<^verbatim>\<open>time.time()\<close> reads it exactly (a real number; neither the resolution
  of the port's clock nor the time the calls themselves take is modelled).
  \<open>irq = Some k\<close> says that \<^verbatim>\<open>KeyboardInterrupt\<close> is raised once \<open>k\<close> more calls have
  completed; the call it hits does not happen.
\<close>

datatype flow = Normal | Break | Raise | Timeout

text \<open>
  \<open>Raise\<close> is a propagating \<^verbatim>\<open>KeyboardInterrupt\<close>, \<open>Break\<close> a \<^verbatim>\<open>break\<close> looking for
  its loop, \<open>Timeout\<close> a \<^verbatim>\<open>while\<close> loop that used up the iterations the model allows it
  (the run has not returned).
\<close>

type_synonym cmd = "world \<Rightarrow> flow \<times> world"

fun elapse :: "event \<Rightarrow> real" where
  "elapse (Sleep d) = d"
| "elapse _ = 0"

definition op :: "event \<Rightarrow> cmd" where
  "op e w =
     (case irq w of
        None \<Rightarrow> (Normal, w\<lparr>now := now w + elapse e, log := log w @ [e]\<rparr>)
      | Some 0 \<Rightarrow> (Raise, w\<lparr>irq := None, log := log w @ [KeyboardInterrupt]\<rparr>)
      | Some (Suc k) \<Rightarrow>
          (Normal, w\<lparr>now := now w + elapse e, irq := Some k, log := log w @ [e]\<rparr>))"

fun block :: "cmd list \<Rightarrow> cmd" where
  "block [] w = (Normal, w)"
| "block (c # cs) w =
     (case c w of
        (Normal, w') \<Rightarrow> block cs w'
      | r \<Rightarrow> r)"

text \<open>
  The body of a \<^verbatim>\<open>try\<close> is where the interruption is modelled: \<open>intr\<close> is armed on entry
  and cleared on exit, so the set-up before \<^verbatim>\<open>try\<close>, the handler and the \<^verbatim>\<open>finally\<close>
  block run undisturbed.
\<close>

definition interruptible :: "nat option \<Rightarrow> cmd \<Rightarrow> cmd" where
  "interruptible intr c w =
     (case c (w\<lparr>irq := intr\<rparr>) of (f, w') \<Rightarrow> (f, w'\<lparr>irq := None\<rparr>))"

text \<open>
  \<^verbatim>\<open>try: body  except KeyboardInterrupt: handler  finally: final\<close>. The handler runs
  when the body raised; \<open>final\<close> runs on every outcome except a loop that never came
  back, and an outcome it does not replace is passed on.
\<close>

definition try_except_finally :: "cmd \<Rightarrow> cmd \<Rightarrow> cmd \<Rightarrow> cmd" where
  "try_except_finally body handler final w =
     (case body w of
        (Timeout, w1) \<Rightarrow> (Timeout, w1)
      | (Raise, w1) \<Rightarrow>
          (case handler w1 of
             (Timeout, w2) \<Rightarrow> (Timeout, w2)
           | (f, w2) \<Rightarrow> (case final w2 of (Normal, w3) \<Rightarrow> (f, w3) | r \<Rightarrow> r))
      | (f, w1) \<Rightarrow> (case final w1 of (Normal, w2) \<Rightarrow> (f, w2) | r \<Rightarrow> r))"

text \<open>
  An expression that calls out of the program: \<open>None\<close> when the interruption hit its
  evaluation.
\<close>

type_synonym 'a expr = "world \<Rightarrow> 'a option \<times> world"

definition time_time :: "real expr" where
  "time_time w =
     (case op (TimeTime (now w)) w of
        (Normal, w') \<Rightarrow> (Some (now w), w')
      | (_, w') \<Rightarrow> (None, w'))"

definition assign :: "'a expr \<Rightarrow> ('a \<Rightarrow> cmd) \<Rightarrow> cmd" where
  "assign e rest w =
     (case e w of
        (None, w') \<Rightarrow> (Raise, w')
      | (Some v, w') \<Rightarrow> rest v w')"

definition py_if :: "bool expr \<Rightarrow> cmd \<Rightarrow> cmd \<Rightarrow> cmd" where
  "py_if c a b w =
     (case c w of
        (None, w') \<Rightarrow> (Raise, w')
      | (Some True, w') \<Rightarrow> a w'
      | (Some False, w') \<Rightarrow> b w')"

definition break_loop :: cmd where
  "break_loop w = (Break, w)"

definition pass :: cmd where
  "pass w = (Normal, w)"

text \<open>
  \<^verbatim>\<open>for x in xs: body\<close>: a \<^verbatim>\<open>break\<close> in the body ends the loop, anything else but normal
  completion leaves it.
\<close>

fun py_for :: "'a list \<Rightarrow> ('a \<Rightarrow> cmd) \<Rightarrow> cmd" where
  "py_for [] body w = (Normal, w)"
| "py_for (x # xs) body w =
     (case body x w of
        (Normal, w') \<Rightarrow> py_for xs body w'
      | (Break, w') \<Rightarrow> (Normal, w')
      | r \<Rightarrow> r)"

text \<open>
  \<^verbatim>\<open>while c: body\<close>, followed for at most \<open>fuel\<close> tests of the condition. With the clock
  of this model a loop whose steps take no time never ends; \<open>Timeout\<close> is its outcome.
\<close>

fun py_while :: "nat \<Rightarrow> bool expr \<Rightarrow> cmd \<Rightarrow> cmd" where
  "py_while 0 c body w = (Timeout, w)"
| "py_while (Suc fuel) c body w =
     (case c w of
        (None, w1) \<Rightarrow> (Raise, w1)
      | (Some False, w1) \<Rightarrow> (Normal, w1)
      | (Some True, w1) \<Rightarrow>
          (case body w1 of
             (Normal, w2) \<Rightarrow> py_while fuel c body w2
           | (Break, w2) \<Rightarrow> (Normal, w2)
           | r \<Rightarrow> r))"

text \<open>\<^verbatim>\<open>range(start, stop, step)\<close> for a positive and for a negative step.\<close>

function range_up :: "int \<Rightarrow> int \<Rightarrow> int \<Rightarrow> int list" where
  "range_up i stop step = (if 0 < step \<and> i < stop then i # range_up (i + step) stop step else [])"
  by pat_completeness auto
termination
  by (relation "measure (\<lambda>(i, stop, step). nat (stop - i))") auto

function range_down :: "int \<Rightarrow> int \<Rightarrow> int \<Rightarrow> int list" where
  "range_down i stop step = (if step < 0 \<and> stop < i then i # range_down (i + step) stop step else [])"
  by pat_completeness auto
termination
  by (relation "measure (\<lambda>(i, stop, step). nat (i - stop))") auto

declare range_up.simps [simp del] range_down.simps [simp del]

definition py_range :: "int \<Rightarrow> int \<Rightarrow> int \<Rightarrow> int list" where
  "py_range start stop step =
     (if 0 < step then range_up start stop step else range_down start stop step)"

definition power_on :: "real \<Rightarrow> world" where
  "power_on t0 = \<lparr>now = t0, irq = None, log = []\<rparr>"

subsection \<open>The actuator entry points\<close>

definition RPWM_PIN :: int where
  "RPWM_PIN = 26"

definition LPWM_PIN :: int where
  "LPWM_PIN = 27"

definition run_one_cycle :: "int \<Rightarrow> int \<Rightarrow> int \<Rightarrow> real \<Rightarrow> nat option \<Rightarrow> cmd" where
  "run_one_cycle r_pwm_pin l_pwm_pin speed duration intr =
     block
      [op (Print [Lit ''--- STARTING SINGLE CYCLE (GPIO '', IntV r_pwm_pin, Lit ''/'',
                  IntV l_pwm_pin, Lit '') ---'']),
       op (NewPWM ExtendPwm r_pwm_pin 1000),
       op (NewPWM RetractPwm l_pwm_pin 1000),
       try_except_finally
        (interruptible intr (block
          [op (Print [Lit ''Extending for '', NumV duration, Lit '' seconds...'']),
           op (DutyU16 RetractPwm 0),
           op (DutyU16 ExtendPwm (duty_cycle speed)),
           op (Sleep duration),
           op (Print [Lit ''Pausing...'']),
           op (DutyU16 ExtendPwm 0),
           op (Sleep 0.5),
           op (Print [Lit ''Retracting for '', NumV duration, Lit '' seconds...'']),
           op (DutyU16 RetractPwm (duty_cycle speed)),
           op (Sleep duration)]))
        (op (Print [Lit (CHR 0x0A # ''! CYCLE INTERRUPTED BY USER !'')]))
        (block
          [op (Print [Lit ''--- CYCLE COMPLETE: MOTORS OFF ---'']),
           op (DutyU16 ExtendPwm 0),
           op (DutyU16 RetractPwm 0),
           op (Deinit ExtendPwm),
           op (Deinit RetractPwm)])]"

definition extend_only :: "real \<Rightarrow> int \<Rightarrow> nat option \<Rightarrow> cmd" where
  "extend_only duration speed intr =
     block
      [op (Print [Lit ''--> Extending for '', NumV duration, Lit ''s at '', IntV speed,
                  Lit ''%...'']),
       op (NewPWM ExtendPwm RPWM_PIN 1000),
       try_except_finally
        (interruptible intr (block
          [op (DutyU16 ExtendPwm (duty_cycle speed)),
           op (Sleep duration)]))
        (op (Print [Lit ''Interrupted!'']))
        (block
          [op (DutyU16 ExtendPwm 0),
           op (Deinit ExtendPwm),
           op (Print [Lit ''--> Stopped.''])])]"

definition retract_only :: "real \<Rightarrow> int \<Rightarrow> nat option \<Rightarrow> cmd" where
  "retract_only duration speed intr =
     block
      [op (Print [Lit ''<-- Retracting for '', NumV duration, Lit ''s at '', IntV speed,
                  Lit ''%...'']),
       op (NewPWM ExtendPwm RPWM_PIN 1000),
       op (NewPWM RetractPwm LPWM_PIN 1000),
       try_except_finally
        (interruptible intr (block
          [op (DutyU16 ExtendPwm 0),
           op (DutyU16 RetractPwm (duty_cycle speed)),
           op (Sleep duration)]))
        (op (Print [Lit ''Interrupted!'']))
        (block
          [op (DutyU16 ExtendPwm 0),
           op (DutyU16 RetractPwm 0),
           op (Deinit ExtendPwm),
           op (Deinit RetractPwm),
           op (Print [Lit ''<-- Stopped.''])])]"

subsection \<open>The LED and PWM tests\<close>

text \<open>\<^verbatim>\<open>time.time() - start_time < duration\<close> (lines 24 and 51).\<close>

definition within_bound :: "real \<Rightarrow> real \<Rightarrow> bool expr" where
  "within_bound start_time duration w =
     (case time_time w of
        (Some t, w') \<Rightarrow> (Some (t - start_time < duration), w')
      | (None, w') \<Rightarrow> (None, w'))"

text \<open>\<^verbatim>\<open>time.time() - start_time >= duration\<close> (lines 27, 55, 60, 68 and 74).\<close>

definition bound_reached :: "real \<Rightarrow> real \<Rightarrow> bool expr" where
  "bound_reached start_time duration w =
     (case time_time w of
        (Some t, w') \<Rightarrow> (Some (duration \<le> t - start_time), w')
      | (None, w') \<Rightarrow> (None, w'))"

text \<open>The body of the blink loop, lines 25 to 30.\<close>

definition led_iteration :: "real \<Rightarrow> real \<Rightarrow> real \<Rightarrow> real \<Rightarrow> cmd" where
  "led_iteration start_time delay_on delay_off duration =
     block
      [op (Value Led 1),
       op (Sleep delay_on),
       py_if (bound_reached start_time duration) break_loop pass,
       op (Value Led 0),
       op (Sleep delay_off)]"

definition test_led :: "nat \<Rightarrow> int \<Rightarrow> real \<Rightarrow> real \<Rightarrow> real \<Rightarrow> nat option \<Rightarrow> cmd" where
  "test_led fuel pin_number delay_on delay_off duration intr =
     block
      [op (NewPin Led pin_number),
       op (Print [Lit ''Starting LED test on GPIO '', IntV pin_number, Lit '' for '',
                  NumV duration, Lit '' seconds'']),
       assign time_time (\<lambda>start_time.
         try_except_finally
          (interruptible intr
            (py_while fuel (within_bound start_time duration)
              (led_iteration start_time delay_on delay_off duration)))
          (op (Print [Lit ''Test stopped'']))
          (op (Value Led 0)))]"

text \<open>One step of a ramp, lines 55 to 58 and 74 to 77.\<close>

definition ramp_step :: "real \<Rightarrow> real \<Rightarrow> int \<Rightarrow> cmd" where
  "ramp_step start_time duration speed =
     block
      [py_if (bound_reached start_time duration) break_loop pass,
       op (DutyU16 ActuatorPwm speed),
       op (Sleep 0.05)]"

text \<open>The body of the ramp loop, lines 52 to 81.\<close>

definition pwm_iteration :: "real \<Rightarrow> real \<Rightarrow> cmd" where
  "pwm_iteration start_time duration =
     block
      [op (Print [Lit ''Speeding up...'']),
       py_for (py_range 0 65535 1000) (ramp_step start_time duration),
       py_if (bound_reached start_time duration) break_loop pass,
       op (Print [Lit ''Full Speed!'']),
       op (DutyU16 ActuatorPwm 65535),
       op (Sleep 1),
       py_if (bound_reached start_time duration) break_loop pass,
       op (Print [Lit ''Slowing down...'']),
       py_for (py_range 65535 0 (- 1000)) (ramp_step start_time duration),
       op (DutyU16 ActuatorPwm 0),
       op (Sleep 1)]"

definition test_pwm :: "nat \<Rightarrow> int \<Rightarrow> real \<Rightarrow> nat option \<Rightarrow> cmd" where
  "test_pwm fuel pin_number duration intr =
     block
      [op (NewPWM ActuatorPwm pin_number 1000),
       op (Print [Lit ''Starting PWM Test for '', NumV duration, Lit '' seconds...'']),
       assign time_time (\<lambda>start_time.
         try_except_finally
          (interruptible intr
            (py_while fuel (within_bound start_time duration)
              (pwm_iteration start_time duration)))
          (op (Print [Lit ''Test stopped'']))
          (op (DutyU16 ActuatorPwm 0)))]"

section \<open>Observing a run\<close>

subsection \<open>The duty cycles behind a log\<close>

text \<open>
  The duty of a PWM object is what was last passed to its \<^verbatim>\<open>duty_u16\<close>. The
  constructors are called without a duty, so what a channel carries before the first
  write is the driver's business: the duties at the start, \<open>d\<close>, are a parameter.
\<close>

fun apply_event :: "event \<Rightarrow> (obj \<Rightarrow> int) \<Rightarrow> (obj \<Rightarrow> int)" where
  "apply_event (DutyU16 h v) d = d(h := v)"
| "apply_event _ d = d"

definition duties_after :: "(obj \<Rightarrow> int) \<Rightarrow> event list \<Rightarrow> obj \<Rightarrow> int" where
  "duties_after d es = fold apply_event es d"





text \<open>
  The timed waits of a log in order, each with the extend duty and the retract duty
  that hold while it lasts.
\<close>

fun timeline :: "(obj \<Rightarrow> int) \<Rightarrow> event list \<Rightarrow> (int \<times> int \<times> real) list" where
  "timeline d [] = []"
| "timeline d (Sleep t # es) = (d ExtendPwm, d RetractPwm, t) # timeline d es"
| "timeline d (e # es) = timeline (apply_event e d) es"

text \<open>The values passed to \<^verbatim>\<open>h.duty_u16\<close>, in order.\<close>

fun duty_writes :: "obj \<Rightarrow> event list \<Rightarrow> int list" where
  "duty_writes h [] = []"
| "duty_writes h (DutyU16 h' v # es) = (if h' = h then v # duty_writes h es else duty_writes h es)"
| "duty_writes h (e # es) = duty_writes h es"




subsection \<open>The log of a try statement over straight-line code\<close>

text \<open>
  With \<open>intr = Some k\<close> the first \<open>k\<close> calls of the body complete; when the body is
  longer, the interruption is raised there and the handler runs.
\<close>

definition completed :: "nat option \<Rightarrow> event list \<Rightarrow> event list" where
  "completed intr body = (case intr of None \<Rightarrow> body | Some k \<Rightarrow> take k body)"

definition hit :: "nat option \<Rightarrow> event list \<Rightarrow> bool" where
  "hit intr body = (case intr of None \<Rightarrow> False | Some k \<Rightarrow> k < length body)"

definition try_log :: "nat option \<Rightarrow> event list \<Rightarrow> event \<Rightarrow> event list \<Rightarrow> event list" where
  "try_log intr body h final =
     completed intr body @ (if hit intr body then [KeyboardInterrupt, h] else []) @ final"

text \<open>The proper prefixes of a list, and with them every log a try statement can leave.\<close>

fun cuts :: "'a list \<Rightarrow> 'a list list" where
  "cuts [] = []"
| "cuts (x # xs) = [] # map ((#) x) (cuts xs)"

definition runs :: "event list \<Rightarrow> event \<Rightarrow> event list \<Rightarrow> event list list" where
  "runs body h final =
     (body @ final) # map (\<lambda>p. p @ KeyboardInterrupt # h # final) (cuts body)"

definition finished :: "real \<Rightarrow> event list \<Rightarrow> flow \<times> world" where
  "finished t0 es = (Normal, \<lparr>now = t0 + sum_list (map elapse es), irq = None, log = es\<rparr>)"

subsection \<open>The events of the three actuator functions\<close>

definition cycle_setup :: "int \<Rightarrow> int \<Rightarrow> event list" where
  "cycle_setup r l =
     [Print [Lit ''--- STARTING SINGLE CYCLE (GPIO '', IntV r, Lit ''/'', IntV l,
             Lit '') ---''],
      NewPWM ExtendPwm r 1000,
      NewPWM RetractPwm l 1000]"

definition cycle_body :: "int \<Rightarrow> real \<Rightarrow> event list" where
  "cycle_body speed duration =
     [Print [Lit ''Extending for '', NumV duration, Lit '' seconds...''],
      DutyU16 RetractPwm 0,
      DutyU16 ExtendPwm (duty_cycle speed),
      Sleep duration,
      Print [Lit ''Pausing...''],
      DutyU16 ExtendPwm 0,
      Sleep 0.5,
      Print [Lit ''Retracting for '', NumV duration, Lit '' seconds...''],
      DutyU16 RetractPwm (duty_cycle speed),
      Sleep duration]"

definition cycle_handler :: event where
  "cycle_handler = Print [Lit (CHR 0x0A # ''! CYCLE INTERRUPTED BY USER !'')]"

definition cycle_final :: "event list" where
  "cycle_final =
     [Print [Lit ''--- CYCLE COMPLETE: MOTORS OFF ---''],
      DutyU16 ExtendPwm 0,
      DutyU16 RetractPwm 0,
      Deinit ExtendPwm,
      Deinit RetractPwm]"

definition cycle_log :: "int \<Rightarrow> int \<Rightarrow> int \<Rightarrow> real \<Rightarrow> nat option \<Rightarrow> event list" where
  "cycle_log r l speed duration intr =
     cycle_setup r l @ try_log intr (cycle_body speed duration) cycle_handler cycle_final"

definition extend_setup :: "real \<Rightarrow> int \<Rightarrow> event list" where
  "extend_setup duration speed =
     [Print [Lit ''--> Extending for '', NumV duration, Lit ''s at '', IntV speed,
             Lit ''%...''],
      NewPWM ExtendPwm 26 1000]"

definition extend_body :: "real \<Rightarrow> int \<Rightarrow> event list" where
  "extend_body duration speed = [DutyU16 ExtendPwm (duty_cycle speed), Sleep duration]"

definition only_handler :: event where
  "only_handler = Print [Lit ''Interrupted!'']"

definition extend_final :: "event list" where
  "extend_final = [DutyU16 ExtendPwm 0, Deinit ExtendPwm, Print [Lit ''--> Stopped.'']]"

definition extend_log :: "real \<Rightarrow> int \<Rightarrow> nat option \<Rightarrow> event list" where
  "extend_log duration speed intr =
     extend_setup duration speed @
     try_log intr (extend_body duration speed) only_handler extend_final"

definition retract_setup :: "real \<Rightarrow> int \<Rightarrow> event list" where
  "retract_setup duration speed =
     [Print [Lit ''<-- Retracting for '', NumV duration, Lit ''s at '', IntV speed,
             Lit ''%...''],
      NewPWM ExtendPwm 26 1000,
      NewPWM RetractPwm 27 1000]"

definition retract_body :: "real \<Rightarrow> int \<Rightarrow> event list" where
  "retract_body duration speed =
     [DutyU16 ExtendPwm 0, DutyU16 RetractPwm (duty_cycle speed), Sleep duration]"

definition retract_final :: "event list" where
  "retract_final =
     [DutyU16 ExtendPwm 0,
      DutyU16 RetractPwm 0,
      Deinit ExtendPwm,
      Deinit RetractPwm,
      Print [Lit ''<-- Stopped.'']]"

definition retract_log :: "real \<Rightarrow> int \<Rightarrow> nat option \<Rightarrow> event list" where
  "retract_log duration speed intr =
     retract_setup duration speed @
     try_log intr (retract_body duration speed) only_handler retract_final"

subsection \<open>The ramp test\<close>

text \<open>
  The log of a ramp over the values \<open>vs\<close> that starts at time \<open>t\<close> and is not cut short: before
  each step the clock is read, then the value is written and held for 50 ms.
\<close>

fun ramp_log :: "real \<Rightarrow> int list \<Rightarrow> event list" where
  "ramp_log t [] = []"
| "ramp_log t (v # vs) =
     TimeTime t # DutyU16 ActuatorPwm v # Sleep 0.05 # ramp_log (t + 0.05) vs"

text \<open>
  The number of steps a ramp of \<open>n\<close> values runs when it starts with \<open>e\<close> seconds elapsed
  and the bound is \<open>d\<close>: it stops at the first check that finds the bound reached.
\<close>

fun ramp_steps :: "real \<Rightarrow> real \<Rightarrow> nat \<Rightarrow> nat" where
  "ramp_steps e d 0 = 0"
| "ramp_steps e d (Suc n) = (if d \<le> e then 0 else Suc (ramp_steps (e + 0.05) d n))"


text \<open>
  The same up to the check that follows the hold at full speed.
\<close>

definition held_iteration :: "real \<Rightarrow> event list" where
  "held_iteration t =
     Print [Lit ''Speeding up...''] #
     ramp_log t (py_range 0 65535 1000) @
     [TimeTime (t + 3.3),
      Print [Lit ''Full Speed!''],
      DutyU16 ActuatorPwm 65535,
      Sleep 1,
      TimeTime (t + 4.3)]"

text \<open>
  The world of test_pwm when the first test of the loop condition has passed.
\<close>

definition pwm_armed :: "int \<Rightarrow> real \<Rightarrow> real \<Rightarrow> world" where
  "pwm_armed pin d t0 =
     \<lparr>now = t0, irq = None,
      log = [NewPWM ActuatorPwm pin 1000,
             Print [Lit ''Starting PWM Test for '', NumV d, Lit '' seconds...''],
             TimeTime t0, TimeTime t0]\<rparr>"


subsection \<open>Interruption and cleanup\<close>

text \<open>
  How a command may change the world: the log grows by events that are not the
  interruption, closed by the interruption exactly when the command raises; the budget
  of calls before the interruption never grows; with no interruption pending nothing
  is raised.
\<close>

definition follows :: "world \<Rightarrow> flow \<Rightarrow> world \<Rightarrow> bool" where
  "follows w f w' \<longleftrightarrow>
     (\<exists>es. KeyboardInterrupt \<notin> set es \<and>
           log w' = log w @ es @ (if f = Raise then [KeyboardInterrupt] else [])) \<and>
     (\<forall>k. irq w = Some k \<longrightarrow> f = Raise \<or> (\<exists>j\<le>k. irq w' = Some j)) \<and>
     (irq w = None \<longrightarrow> irq w' = None \<and> f \<noteq> Raise)"

text \<open>
  A command all of whose runs change the world that way.
\<close>

definition tidy :: "cmd \<Rightarrow> bool" where
  "tidy c \<longleftrightarrow> (\<forall>w. follows w (fst (c w)) (snd (c w)))"

text \<open>
  The same for an expression, which raises when it yields no value.
\<close>

definition tidy_expr :: "'a expr \<Rightarrow> bool" where
  "tidy_expr c \<longleftrightarrow>
     (\<forall>w. follows w (if fst (c w) = None then Raise else Normal) (snd (c w)))"

text \<open>
  A command that always comes back.
\<close>

definition returns :: "cmd \<Rightarrow> bool" where
  "returns c \<longleftrightarrow> (\<forall>w. fst (c w) \<noteq> Timeout)"

text \<open>
  A command that, with no interruption pending, completes and logs exactly \<open>es\<close>.
\<close>

definition runs_as :: "cmd \<Rightarrow> event list \<Rightarrow> bool" where
  "runs_as c es \<longleftrightarrow>
     (\<forall>w. irq w = None \<longrightarrow>
        fst (c w) = Normal \<and> irq (snd (c w)) = None \<and> log (snd (c w)) = log w @ es)"

text \<open>
  A log in which the interruption was raised once and which ends with the interruption,
  the handler's message \<open>h\<close> and the events of the cleanup.
\<close>

definition caught :: "event \<Rightarrow> event list \<Rightarrow> event list \<Rightarrow> bool" where
  "caught h final lg \<longleftrightarrow>
     suffix (KeyboardInterrupt # h # final) lg \<and> count_list lg KeyboardInterrupt = 1"

text \<open>
  The outcome of an entry point whose handler prints \<open>h\<close> and whose cleanup is \<open>final\<close>:
  no exception leaves it, and a run that returned ends with the cleanup, reached
  through the handler when the interruption was raised.
\<close>

definition handled :: "event \<Rightarrow> event list \<Rightarrow> flow \<times> world \<Rightarrow> bool" where
  "handled h final r \<longleftrightarrow>
     fst r \<noteq> Raise \<and>
     (fst r = Normal \<longrightarrow>
        (if KeyboardInterrupt \<in> set (log (snd r)) then caught h final (log (snd r))
         else suffix final (log (snd r))))"

section \<open>Properties\<close>

subsection \<open>Duty-cycle arithmetic\<close>

lemma duty_cycle_nonneg: "0 \<le> speed \<Longrightarrow> duty_cycle speed = (speed * 65535) div 100"
proof -
  assume "0 \<le> speed"
  then have "0 \<le> real_of_int (speed * 65535) / 100" by simp
  moreover have "\<lfloor>real_of_int (speed * 65535) / real_of_int 100\<rfloor> = (speed * 65535) div 100"
    by (rule floor_divide_of_int_eq)
  ultimately show ?thesis by (simp add: duty_cycle_def py_int_def)
qed


subsection \<open>Straight-line code under an interruption\<close>

lemma block_ops_None:
  "irq w = None \<Longrightarrow>
   block (map op es) w =
     (Normal, w\<lparr>now := now w + sum_list (map elapse es), log := log w @ es\<rparr>)"
  by (induction es arbitrary: w) (simp_all add: op_def add.assoc)

lemma block_ops_Some:
  "irq w = Some k \<Longrightarrow>
   block (map op es) w =
     (if k < length es
      then (Raise, w\<lparr>now := now w + sum_list (map elapse (take k es)), irq := None,
                     log := log w @ take k es @ [KeyboardInterrupt]\<rparr>)
      else (Normal, w\<lparr>now := now w + sum_list (map elapse es), irq := Some (k - length es),
                      log := log w @ es\<rparr>))"
proof (induction es arbitrary: w k)
  case Nil
  then show ?case by simp
next
  case (Cons e es)
  show ?case
  proof (cases k)
    case 0
    with Cons.prems show ?thesis by (simp add: op_def)
  next
    case (Suc j)
    with Cons.prems
      Cons.IH[of "w\<lparr>now := now w + elapse e, irq := Some j, log := log w @ [e]\<rparr>" j]
    show ?thesis by (simp add: op_def add.assoc)
  qed
qed

lemma try_ops:
  "try_except_finally (interruptible intr (block (map op body))) (op h) (block (map op final)) w =
     (Normal, w\<lparr>now := now w + sum_list (map elapse (try_log intr body h final)),
                  irq := None,
                  log := log w @ try_log intr body h final\<rparr>)"
proof (cases intr)
  case None
  then show ?thesis
    by (simp add: try_except_finally_def interruptible_def block_ops_None try_log_def
        completed_def hit_def add.assoc)
next
  case (Some k)
  show ?thesis
  proof (cases "k < length body")
    case True
    with Some show ?thesis
      by (simp add: try_except_finally_def interruptible_def block_ops_Some block_ops_None
          op_def try_log_def completed_def hit_def add.assoc)
  next
    case False
    with Some show ?thesis
      by (simp add: try_except_finally_def interruptible_def block_ops_Some block_ops_None
          try_log_def completed_def hit_def add.assoc)
  qed
qed



subsection \<open>What the actuator functions leave in the log\<close>

lemma run_one_cycle_run:
  "run_one_cycle r l speed duration intr (power_on t0) =
     finished t0 (cycle_log r l speed duration intr)"
  unfolding run_one_cycle_def
  using try_ops[of intr "cycle_body speed duration" cycle_handler cycle_final]
  by (simp add: op_def power_on_def cycle_body_def cycle_handler_def cycle_final_def
      cycle_setup_def cycle_log_def finished_def)

lemma extend_only_run:
  "extend_only duration speed intr (power_on t0) = finished t0 (extend_log duration speed intr)"
  unfolding extend_only_def
  using try_ops[of intr "extend_body duration speed" only_handler extend_final]
  by (simp add: op_def power_on_def extend_body_def only_handler_def extend_final_def
      extend_setup_def extend_log_def finished_def RPWM_PIN_def)

lemma retract_only_run:
  "retract_only duration speed intr (power_on t0) =
     finished t0 (retract_log duration speed intr)"
  unfolding retract_only_def
  using try_ops[of intr "retract_body duration speed" only_handler retract_final]
  by (simp add: op_def power_on_def retract_body_def only_handler_def retract_final_def
      retract_setup_def retract_log_def finished_def RPWM_PIN_def LPWM_PIN_def)




lemmas cycle_events = runs_def cycle_setup_def cycle_body_def cycle_handler_def cycle_final_def

lemmas extend_events = runs_def extend_setup_def extend_body_def only_handler_def extend_final_def

lemmas retract_events =
  runs_def retract_setup_def retract_body_def only_handler_def retract_final_def

lemmas uninterrupted = try_log_def completed_def hit_def

subsection \<open>Claims about the duty-cycle computation\<close>

text \<open>
  C9. For every integer speed from 0 to 100 the duty cycle computed at lines 104, 145
  and 175 lies between 0 and 65535; speed 0 gives duty 0 and speed 100 gives duty 65535.
\<close>

theorem duty_cycle_in_range:
  "(0 \<le> speed \<and> speed \<le> 100 \<longrightarrow> 0 \<le> duty_cycle speed \<and> duty_cycle speed \<le> 65535) \<and>
   duty_cycle 0 = 0 \<and> duty_cycle 100 = 65535"
proof -
  have "0 \<le> duty_cycle speed \<and> duty_cycle speed \<le> 65535" if "0 \<le> speed" "speed \<le> 100"
    using that duty_cycle_nonneg[of speed] by arith
  moreover have "duty_cycle 0 = 0" "duty_cycle 100 = 65535"
    by (simp_all add: duty_cycle_nonneg)
  ultimately show ?thesis by blast
qed

theorem duty_cycle_in_range_witness:
  "0 \<le> duty_cycle 37 \<and> duty_cycle 37 \<le> 65535 \<and> duty_cycle 37 = 24247"
  using duty_cycle_in_range[of 37] by (simp add: duty_cycle_nonneg)






lemma actuator_flows:
  "fst (run_one_cycle r l speed duration intr (power_on t0)) = Normal"
  "fst (extend_only duration speed intr (power_on t0)) = Normal"
  "fst (retract_only duration speed intr (power_on t0)) = Normal"
  by (simp_all add: run_one_cycle_run extend_only_run retract_only_run finished_def)

lemma py_round_floor: "py_round x = \<lfloor>x\<rfloor> \<or> py_round x = \<lfloor>x\<rfloor> + 1"
  by (simp add: py_round_def Let_def)

text \<open>
  C1, as amended. For every integer speed from 0 to 100 the duty cycle that
  run_one_cycle, extend_only and retract_only compute and write is the quotient
  \<open>speed * 65535 / 100\<close> truncated to an integer, which is the specification's rounded
  value or one less; extend_only(duration=1, speed=50) drives the extend channel at
  duty 32767 for its one second.
\<close>

theorem duty_cycle_truncates:
  "(0 \<le> speed \<and> speed \<le> 100 \<longrightarrow>
      duty_cycle speed = \<lfloor>real_of_int speed * 65535 / 100\<rfloor> \<and>
      (duty_cycle speed = spec_duty_cycle speed \<or> duty_cycle speed = spec_duty_cycle speed - 1) \<and>
      duty_writes ExtendPwm (log (snd (run_one_cycle r l speed duration None (power_on t0)))) =
        [\<lfloor>real_of_int speed * 65535 / 100\<rfloor>, 0, 0] \<and>
      duty_writes RetractPwm (log (snd (run_one_cycle r l speed duration None (power_on t0)))) =
        [0, \<lfloor>real_of_int speed * 65535 / 100\<rfloor>, 0] \<and>
      duty_writes ExtendPwm (log (snd (extend_only duration speed None (power_on t0)))) =
        [\<lfloor>real_of_int speed * 65535 / 100\<rfloor>, 0] \<and>
      duty_writes RetractPwm (log (snd (retract_only duration speed None (power_on t0)))) =
        [\<lfloor>real_of_int speed * 65535 / 100\<rfloor>, 0]) \<and>
   timeline d0 (log (snd (extend_only 1 50 None (power_on t0)))) = [(32767, d0 RetractPwm, 1)]"
proof -
  have fl: "duty_cycle speed = \<lfloor>real_of_int speed * 65535 / 100\<rfloor>" if "0 \<le> speed"
    using that by (simp add: duty_cycle_def py_int_def)
  have near: "duty_cycle speed = spec_duty_cycle speed \<or> duty_cycle speed = spec_duty_cycle speed - 1"
    if "0 \<le> speed"
    using fl[OF that] py_round_floor[of "real_of_int speed * 65535 / 100"]
    by (auto simp: spec_duty_cycle_def)
  have c: "duty_writes ExtendPwm (cycle_log r l speed duration None) = [duty_cycle speed, 0, 0]"
    "duty_writes RetractPwm (cycle_log r l speed duration None) = [0, duty_cycle speed, 0]"
    by (simp_all add: cycle_log_def uninterrupted cycle_events)
  have e: "duty_writes ExtendPwm (extend_log duration speed None) = [duty_cycle speed, 0]"
    by (simp add: extend_log_def uninterrupted extend_events)
  have r: "duty_writes RetractPwm (retract_log duration speed None) = [duty_cycle speed, 0]"
    by (simp add: retract_log_def uninterrupted retract_events)
  have t: "timeline d0 (extend_log 1 50 None) = [(32767, d0 RetractPwm, 1)]"
    by (simp add: extend_log_def uninterrupted extend_events duty_cycle_nonneg)
  show ?thesis
    using fl near c e r t
    by (simp add: run_one_cycle_run extend_only_run retract_only_run finished_def)
qed

theorem duty_cycle_truncates_witness:
  "duty_cycle 2 = 1310 \<and> spec_duty_cycle 2 = 1311 \<and>
   duty_writes RetractPwm (log (snd (retract_only 3 2 None (power_on 0)))) = [1310, 0]"
  using duty_cycle_truncates[of 2 0 0 3 0 "\<lambda>_. 0"]
  by (simp add: spec_duty_cycle_def py_round_def Let_def)

text \<open>
  C1 as stated fails: at speed 50 the code computes 32767 where rounding gives 32768, and
  32767 is what extend_only(duration=1, speed=50) writes; at speed 2 the quotient 1310.7
  is no tie and the code still computes 1310.
\<close>

theorem duty_cycle_not_rounded:
  "duty_cycle 50 \<noteq> spec_duty_cycle 50 \<and>
   duty_cycle 50 = 32767 \<and> spec_duty_cycle 50 = 32768 \<and>
   duty_writes ExtendPwm (log (snd (extend_only 1 50 None (power_on 0)))) = [32767, 0] \<and>
   duty_cycle 2 = 1310 \<and> spec_duty_cycle 2 = 1311"
proof -
  have "duty_writes ExtendPwm (extend_log 1 50 None) = [32767, 0]"
    by (simp add: extend_log_def uninterrupted extend_events duty_cycle_nonneg)
  then show ?thesis
    by (simp add: extend_only_run finished_def duty_cycle_nonneg spec_duty_cycle_def
        py_round_def Let_def)
qed

subsection \<open>Claims about the actuator sequences\<close>

text \<open>
  C5. run_one_cycle(speed=100, duration=2), not interrupted, returns normally and its
  timed waits are, in order: 2 seconds with extend at 65535 and retract at 0, half a
  second with both at 0, 2 seconds with retract at 65535 and extend at 0; both channels
  are at 0 at the end, 4.5 seconds after the start. This holds whatever duties the
  channels had when they were acquired.
\<close>

theorem cycle_scenario:
  "fst (run_one_cycle 26 27 100 2 None (power_on t0)) = Normal \<and>
   timeline d0 (log (snd (run_one_cycle 26 27 100 2 None (power_on t0)))) =
     [(65535, 0, 2), (0, 0, 0.5), (0, 65535, 2)] \<and>
   duties_after d0 (log (snd (run_one_cycle 26 27 100 2 None (power_on t0)))) ExtendPwm = 0 \<and>
   duties_after d0 (log (snd (run_one_cycle 26 27 100 2 None (power_on t0)))) RetractPwm = 0 \<and>
   now (snd (run_one_cycle 26 27 100 2 None (power_on t0))) = t0 + 4.5"
  by (simp add: run_one_cycle_run finished_def cycle_log_def uninterrupted cycle_events
      duty_cycle_nonneg duties_after_def)





text \<open>
  C4, at extend_only(duration=2, speed=100). The log of the run has no call on the
  retract channel at all: line 149, \<^verbatim>\<open>ret.duty_u16(0)\<close>, is commented out under the
  comment that announces it, so the retract channel keeps the duty \<open>d0 RetractPwm\<close> it
  had before while extend is driven at 65535. retract_only does force extend to 0 first
  (C2).
\<close>

theorem extend_only_leaves_retract:
  "log (snd (extend_only 2 100 None (power_on 0))) =
     [Print [Lit ''--> Extending for '', NumV 2, Lit ''s at '', IntV 100, Lit ''%...''],
      NewPWM ExtendPwm 26 1000,
      DutyU16 ExtendPwm 65535,
      Sleep 2,
      DutyU16 ExtendPwm 0,
      Deinit ExtendPwm,
      Print [Lit ''--> Stopped.'']] \<and>
   duty_writes RetractPwm (log (snd (extend_only 2 100 None (power_on 0)))) = [] \<and>
   timeline d0 (log (snd (extend_only 2 100 None (power_on 0)))) = [(65535, d0 RetractPwm, 2)]"
  by (simp add: extend_only_run finished_def extend_log_def uninterrupted extend_events
      duty_cycle_nonneg)

subsection \<open>The ramp loop without interruption\<close>

lemma op_None:
  "irq w = None \<Longrightarrow> op e w = (Normal, w\<lparr>now := now w + elapse e, log := log w @ [e]\<rparr>)"
  by (simp add: op_def)

lemma bound_reached_None:
  "irq w = None \<Longrightarrow>
   bound_reached s d w = (Some (d \<le> now w - s), w\<lparr>log := log w @ [TimeTime (now w)]\<rparr>)"
  by (simp add: bound_reached_def time_time_def op_def)

lemma within_bound_None:
  "irq w = None \<Longrightarrow>
   within_bound s d w = (Some (now w - s < d), w\<lparr>log := log w @ [TimeTime (now w)]\<rparr>)"
  by (simp add: within_bound_def time_time_def op_def)

lemma ramp_step_None:
  "irq w = None \<Longrightarrow>
   ramp_step s d v w =
     (if d \<le> now w - s then (Break, w\<lparr>log := log w @ [TimeTime (now w)]\<rparr>)
      else (Normal, w\<lparr>now := now w + 0.05,
                      log := log w @ [TimeTime (now w), DutyU16 ActuatorPwm v, Sleep 0.05]\<rparr>))"
  by (simp add: ramp_step_def py_if_def bound_reached_None op_None break_loop_def pass_def)


lemma ramp_run:
  "irq w = None \<Longrightarrow>
   py_for vs (ramp_step s d) w =
     (Normal,
      w\<lparr>now := now w + 0.05 * real (ramp_steps (now w - s) d (length vs)),
        log := log w @ ramp_log (now w) (take (ramp_steps (now w - s) d (length vs)) vs) @
               (if ramp_steps (now w - s) d (length vs) < length vs
                then [TimeTime (now w + 0.05 * real (ramp_steps (now w - s) d (length vs)))]
                else [])\<rparr>)"
proof (induction vs arbitrary: w)
  case Nil
  then show ?case by simp
next
  case (Cons v vs)
  show ?case
  proof (cases "d \<le> now w - s")
    case True
    with Cons.prems show ?thesis by (simp add: ramp_step_None)
  next
    case False
    let ?w1 = "w\<lparr>now := now w + 0.05,
                 log := log w @ [TimeTime (now w), DutyU16 ActuatorPwm v, Sleep 0.05]\<rparr>"
    have e: "now w + 0.05 - s = now w - s + 0.05" by simp
    from Cons.prems have "irq ?w1 = None" by simp
    from Cons.IH[OF this] False Cons.prems show ?thesis
      by (simp add: ramp_step_None e algebra_simps)
  qed
qed

lemma up_values:
  "py_range 0 65535 1000 =
     [0, 1000, 2000, 3000, 4000, 5000, 6000, 7000, 8000, 9000, 10000, 11000,
      12000, 13000, 14000, 15000, 16000, 17000, 18000, 19000, 20000, 21000,
      22000, 23000, 24000, 25000, 26000, 27000, 28000, 29000, 30000, 31000,
      32000, 33000, 34000, 35000, 36000, 37000, 38000, 39000, 40000, 41000,
      42000, 43000, 44000, 45000, 46000, 47000, 48000, 49000, 50000, 51000,
      52000, 53000, 54000, 55000, 56000, 57000, 58000, 59000, 60000, 61000,
      62000, 63000, 64000, 65000]"
  by (simp add: py_range_def range_up.simps)

lemma down_values:
  "py_range 65535 0 (- 1000) =
     [65535, 64535, 63535, 62535, 61535, 60535, 59535, 58535, 57535, 56535,
      55535, 54535, 53535, 52535, 51535, 50535, 49535, 48535, 47535, 46535,
      45535, 44535, 43535, 42535, 41535, 40535, 39535, 38535, 37535, 36535,
      35535, 34535, 33535, 32535, 31535, 30535, 29535, 28535, 27535, 26535,
      25535, 24535, 23535, 22535, 21535, 20535, 19535, 18535, 17535, 16535,
      15535, 14535, 13535, 12535, 11535, 10535, 9535, 8535, 7535, 6535, 5535,
      4535, 3535, 2535, 1535, 535]"
  by (simp add: py_range_def range_down.simps)

lemma ramp_lengths:
  "length (py_range 0 65535 1000) = 66" "length (py_range 65535 0 (- 1000)) = 66"
  by (simp_all add: up_values down_values)

lemma ramp_steps_all: "e + 0.05 * real n < d + 0.05 \<Longrightarrow> ramp_steps e d n = n"
proof (induction n arbitrary: e)
  case 0
  then show ?case by simp
next
  case (Suc n)
  have s: "0.05 * real (Suc n) = 0.05 * real n + 0.05" by simp
  from Suc.prems have "e + 0.05 * real n < d" unfolding s by linarith
  moreover have "0 \<le> 0.05 * real n" by simp
  ultimately have "\<not> d \<le> e" by linarith
  moreover have "ramp_steps (e + 0.05) d n = n"
    using Suc.prems unfolding s by (intro Suc.IH) linarith
  ultimately show ?case by simp
qed

lemma ramp_uncut:
  assumes "irq w = None" and "now w - s + 0.05 * real (length vs) < d + 0.05"
  shows "py_for vs (ramp_step s d) w =
     (Normal, w\<lparr>now := now w + 0.05 * real (length vs), log := log w @ ramp_log (now w) vs\<rparr>)"
  using ramp_run[OF assms(1), of vs s d] ramp_steps_all[OF assms(2)] by simp


lemma ramp_steps_numeral:
  "ramp_steps e d (numeral n) =
     (if d \<le> e then 0 else Suc (ramp_steps (e + 0.05) d (pred_numeral n)))"
  by (simp add: numeral_eq_Suc)


lemma pwm_iteration_down:
  assumes "irq w = None" and "now w - s + 4.3 < d"
  shows "pwm_iteration s d w =
     (Normal,
      w\<lparr>now := now w + 5.3 + 0.05 * real (ramp_steps (now w + 4.3 - s) d 66),
        log := log w @ held_iteration (now w) @
          Print [Lit ''Slowing down...''] #
          ramp_log (now w + 4.3)
            (take (ramp_steps (now w + 4.3 - s) d 66) (py_range 65535 0 (- 1000))) @
          (if ramp_steps (now w + 4.3 - s) d 66 < 66
           then [TimeTime (now w + 4.3 + 0.05 * real (ramp_steps (now w + 4.3 - s) d 66))]
           else []) @
          [DutyU16 ActuatorPwm 0, Sleep 1]\<rparr>)"
proof -
  let ?w1 = "w\<lparr>log := log w @ [Print [Lit ''Speeding up...'']]\<rparr>"
  have r1: "py_for (py_range 0 65535 1000) (ramp_step s d) ?w1 =
     (Normal, ?w1\<lparr>now := now ?w1 + 0.05 * real (length (py_range 0 65535 1000)),
                   log := log ?w1 @ ramp_log (now ?w1) (py_range 0 65535 1000)\<rparr>)"
    using assms by (intro ramp_uncut) (simp_all add: ramp_lengths)
  let ?w2 = "w\<lparr>now := now w + 4.3,
      log := log w @ held_iteration (now w) @ [Print [Lit ''Slowing down...'']]\<rparr>"
  have "irq ?w2 = None" using assms by simp
  note r2 = ramp_run[OF this, of "py_range 65535 0 (- 1000)" s d]
  show ?thesis
    using assms r1 r2
    by (simp add: pwm_iteration_def op_None py_if_def bound_reached_None break_loop_def pass_def
        ramp_lengths held_iteration_def ac_simps)
qed

lemma pwm_single_pass:
  assumes "4.3 < d" and "d \<le> 5.3 + 0.05 * real (ramp_steps 4.3 d 66)"
  shows "test_pwm 2 pin d None (power_on 0) =
     (Normal,
      \<lparr>now = 5.3 + 0.05 * real (ramp_steps 4.3 d 66), irq = None,
       log = (log (pwm_armed pin d 0) @ held_iteration 0 @
              Print [Lit ''Slowing down...''] #
              ramp_log 4.3 (take (ramp_steps 4.3 d 66) (py_range 65535 0 (- 1000))) @
              (if ramp_steps 4.3 d 66 < 66
               then [TimeTime (4.3 + 0.05 * real (ramp_steps 4.3 d 66))] else [])) @
             [DutyU16 ActuatorPwm 0, Sleep 1,
              TimeTime (5.3 + 0.05 * real (ramp_steps 4.3 d 66)),
              DutyU16 ActuatorPwm 0]\<rparr>)"
proof -
  have "irq (pwm_armed pin d 0) = None" "now (pwm_armed pin d 0) - 0 + 4.3 < d"
    using assms(1) by (simp_all add: pwm_armed_def)
  note it = pwm_iteration_down[OF this, unfolded pwm_armed_def, simplified]
  show ?thesis
    using assms
    by (simp add: test_pwm_def op_None power_on_def assign_def time_time_def
        try_except_finally_def interruptible_def numeral_2_eq_2 it pwm_armed_def
        within_bound_None)
qed

lemma stop_steps: "ramp_steps 4.3 5 66 = 14" "ramp_steps 4.3 4.98 66 = 14"
  by (simp_all add: ramp_steps_numeral)









subsection \<open>Claims about the ramp test\<close>



text \<open>
  C7, at test_pwm(pin_number=2, duration=5). The check before the fifteenth step of the
  descending ramp reads 5 seconds elapsed and leaves the ramp; lines 80 and 81 follow
  without a check, so 0 is written and held for a further second with the bound already
  reached, and the loop ends 6 seconds after the start. With duration=4.98 it ends at 6
  seconds too, 1.02 seconds past the bound, which is more than the longest single wait.
  The two earlier phase changes (lines 60 and 68) do check.
\<close>

theorem test_pwm_stop_unchecked:
  "fst (test_pwm 2 2 5 None (power_on 0)) = Normal \<and>
   now (snd (test_pwm 2 2 5 None (power_on 0))) = 6 \<and>
   suffix [TimeTime 5, DutyU16 ActuatorPwm 0, Sleep 1, TimeTime 6, DutyU16 ActuatorPwm 0]
     (log (snd (test_pwm 2 2 5 None (power_on 0)))) \<and>
   now (snd (test_pwm 2 2 4.98 None (power_on 0))) = 6"
proof -
  have a: "(4.3::real) < 5" "(5::real) \<le> 5.3 + 0.05 * real (ramp_steps 4.3 5 66)"
    and b: "(4.3::real) < 4.98" "(4.98::real) \<le> 5.3 + 0.05 * real (ramp_steps 4.3 4.98 66)"
    by (simp_all add: stop_steps)
  show ?thesis
    unfolding pwm_single_pass[OF a] pwm_single_pass[OF b]
    using stop_steps by (simp add: suffix_def)
qed

subsection \<open>Commands under an interruption\<close>

lemma follows_same: "f \<noteq> Raise \<Longrightarrow> follows w f w"
  by (auto simp: follows_def intro: exI[of _ "[]"])

lemma follows_flow: "follows w f w' \<Longrightarrow> f \<noteq> Raise \<Longrightarrow> g \<noteq> Raise \<Longrightarrow> follows w g w'"
  by (auto simp: follows_def)

lemma follows_trans:
  assumes "follows w Normal w1" and "follows w1 f w2"
  shows "follows w f w2"
proof -
  from assms(1) obtain es1 where 1: "KeyboardInterrupt \<notin> set es1" "log w1 = log w @ es1"
    by (auto simp: follows_def)
  from assms(2) obtain es2 where 2: "KeyboardInterrupt \<notin> set es2"
    "log w2 = log w1 @ es2 @ (if f = Raise then [KeyboardInterrupt] else [])"
    by (auto simp: follows_def)
  have "KeyboardInterrupt \<notin> set (es1 @ es2) \<and>
        log w2 = log w @ (es1 @ es2) @ (if f = Raise then [KeyboardInterrupt] else [])"
    using 1 2 by simp
  then have a: "\<exists>es. KeyboardInterrupt \<notin> set es \<and>
        log w2 = log w @ es @ (if f = Raise then [KeyboardInterrupt] else [])"
    by blast
  have b: "f = Raise \<or> (\<exists>j\<le>k. irq w2 = Some j)" if "irq w = Some k" for k
  proof -
    from assms(1) that obtain j where j: "j \<le> k" "irq w1 = Some j"
      by (auto simp: follows_def)
    with assms(2) have "f = Raise \<or> (\<exists>i\<le>j. irq w2 = Some i)"
      by (auto simp: follows_def)
    with j(1) show ?thesis by (meson le_trans)
  qed
  have c: "irq w2 = None \<and> f \<noteq> Raise" if "irq w = None"
    using that assms by (auto simp: follows_def)
  from a b c show ?thesis unfolding follows_def by blast
qed

lemma tidyD: "tidy c \<Longrightarrow> c w = (f, w') \<Longrightarrow> follows w f w'"
  by (auto simp: tidy_def dest: spec[of _ w])

lemma tidy_exprD:
  "tidy_expr c \<Longrightarrow> c w = (r, w') \<Longrightarrow> follows w (if r = None then Raise else Normal) w'"
  by (auto simp: tidy_expr_def dest: spec[of _ w])

lemma tidy_op: "e \<noteq> KeyboardInterrupt \<Longrightarrow> tidy (op e)"
  unfolding tidy_def follows_def op_def
  by (auto split: option.splits nat.splits intro: exI[of _ "[]"])

lemma tidy_break: "tidy break_loop"
  by (simp add: tidy_def break_loop_def follows_same)

lemma tidy_pass: "tidy pass"
  by (simp add: tidy_def pass_def follows_same)

lemma tidy_block: "\<forall>c \<in> set cs. tidy c \<Longrightarrow> tidy (block cs)"
proof (induction cs)
  case Nil
  then show ?case by (simp add: tidy_def follows_same)
next
  case (Cons c cs)
  then have t: "tidy c" and ts: "tidy (block cs)" by simp_all
  show ?case
    unfolding tidy_def
  proof
    fix w
    obtain f w1 where c: "c w = (f, w1)" by (cases "c w")
    note f1 = tidyD[OF t c]
    show "follows w (fst (block (c # cs) w)) (snd (block (c # cs) w))"
    proof (cases f)
      case Normal
      obtain g w2 where b: "block cs w1 = (g, w2)" by (cases "block cs w1")
      from follows_trans[OF f1[unfolded Normal] tidyD[OF ts b]] c Normal b
      show ?thesis by simp
    qed (use c f1 in simp_all)
  qed
qed

lemma tidy_time_time: "tidy_expr time_time"
  unfolding tidy_expr_def follows_def time_time_def op_def
  by (auto split: option.splits nat.splits intro: exI[of _ "[]"])

lemma tidy_bound_reached: "tidy_expr (bound_reached s d)"
proof -
  have "follows w (if fst (bound_reached s d w) = None then Raise else Normal)
          (snd (bound_reached s d w))" for w
    using tidy_time_time[unfolded tidy_expr_def, rule_format, of w]
    by (cases "time_time w") (auto simp: bound_reached_def split: option.splits)
  then show ?thesis by (simp add: tidy_expr_def)
qed

lemma tidy_within_bound: "tidy_expr (within_bound s d)"
proof -
  have "follows w (if fst (within_bound s d w) = None then Raise else Normal)
          (snd (within_bound s d w))" for w
    using tidy_time_time[unfolded tidy_expr_def, rule_format, of w]
    by (cases "time_time w") (auto simp: within_bound_def split: option.splits)
  then show ?thesis by (simp add: tidy_expr_def)
qed

lemma tidy_py_if:
  assumes "tidy_expr c" and "tidy a" and "tidy b"
  shows "tidy (py_if c a b)"
  unfolding tidy_def
proof
  fix w
  obtain r w1 where c: "c w = (r, w1)" by (cases "c w")
  note f1 = tidy_exprD[OF assms(1) c]
  show "follows w (fst (py_if c a b w)) (snd (py_if c a b w))"
  proof (cases r)
    case None
    with c f1 show ?thesis by (simp add: py_if_def)
  next
    case (Some v)
    obtain g w2 where a: "a w1 = (g, w2)" by (cases "a w1")
    obtain g' w2' where b: "b w1 = (g', w2')" by (cases "b w1")
    from Some f1 have n: "follows w Normal w1" by simp
    from follows_trans[OF n tidyD[OF assms(2) a]] follows_trans[OF n tidyD[OF assms(3) b]]
      c Some a b
    show ?thesis by (cases v) (simp_all add: py_if_def)
  qed
qed

lemma tidy_py_for:
  assumes "\<And>x. tidy (body x)"
  shows "tidy (py_for xs body)"
proof -
  have "follows w (fst (py_for xs body w)) (snd (py_for xs body w))" for w
  proof (induction xs arbitrary: w)
    case Nil
    then show ?case by (simp add: follows_same)
  next
    case (Cons x xs)
    obtain f w1 where c: "body x w = (f, w1)" by (cases "body x w")
    note f1 = tidyD[OF assms c]
    show ?case
    proof (cases f)
      case Normal
      from follows_trans[OF f1[unfolded Normal] Cons.IH[of w1]] c Normal
      show ?thesis by simp
    next
      case Break
      with f1 have "follows w Normal w1" by (auto intro: follows_flow)
      with c Break show ?thesis by simp
    qed (use c f1 in simp_all)
  qed
  then show ?thesis by (simp add: tidy_def)
qed

lemma tidy_py_while:
  assumes "tidy_expr c" and "tidy body"
  shows "tidy (py_while n c body)"
proof -
  have "follows w (fst (py_while n c body w)) (snd (py_while n c body w))" for w
  proof (induction n arbitrary: w)
    case 0
    then show ?case by (simp add: follows_same)
  next
    case (Suc n)
    obtain r w1 where c: "c w = (r, w1)" by (cases "c w")
    note f1 = tidy_exprD[OF assms(1) c]
    show ?case
    proof (cases r)
      case None
      with c f1 show ?thesis by simp
    next
      case (Some v)
      with f1 have n1: "follows w Normal w1" by simp
      show ?thesis
      proof (cases v)
        case False
        with c Some n1 show ?thesis by simp
      next
        case True
        obtain f w2 where b: "body w1 = (f, w2)" by (cases "body w1")
        note f2 = follows_trans[OF n1 tidyD[OF assms(2) b]]
        show ?thesis
        proof (cases f)
          case Normal
          from follows_trans[OF f2[unfolded Normal] Suc.IH[of w2]] c Some True b Normal
          show ?thesis by simp
        next
          case Break
          with f2 have "follows w Normal w2" by (auto intro: follows_flow)
          with c Some True b Break show ?thesis by simp
        qed (use c Some True b f2 in simp_all)
      qed
    qed
  qed
  then show ?thesis by (simp add: tidy_def)
qed

lemma py_while_no_break: "fst (py_while n c body w) \<noteq> Break"
proof (induction n arbitrary: w)
  case 0
  then show ?case by simp
next
  case (Suc n)
  then show ?case
    by (auto split: prod.splits option.splits bool.splits flow.splits)
qed

lemma tidy_led_iteration: "tidy (led_iteration s delay_on delay_off d)"
  unfolding led_iteration_def
  by (intro tidy_block) (simp add: tidy_op tidy_py_if tidy_bound_reached tidy_break tidy_pass)

lemma tidy_ramp_step: "tidy (ramp_step s d v)"
  unfolding ramp_step_def
  by (intro tidy_block) (simp add: tidy_op tidy_py_if tidy_bound_reached tidy_break tidy_pass)

lemma tidy_pwm_iteration: "tidy (pwm_iteration s d)"
  unfolding pwm_iteration_def
  by (intro tidy_block)
    (simp add: tidy_op tidy_py_if tidy_bound_reached tidy_break tidy_pass tidy_py_for
      tidy_ramp_step)

lemma runs_as_op: "runs_as (op e) [e]"
  by (simp add: runs_as_def op_def)

lemma runs_as_block: "runs_as (block (map op es)) es"
  by (simp add: runs_as_def block_ops_None)

lemma runs_asD:
  "runs_as c es \<Longrightarrow> irq w = None \<Longrightarrow>
   \<exists>w'. c w = (Normal, w') \<and> irq w' = None \<and> log w' = log w @ es"
  by (cases "c w") (auto simp: runs_as_def dest: spec[of _ w])

lemma try_handled:
  assumes body: "tidy body"
    and handler: "runs_as handler [h]" and fin: "runs_as fin final"
    and h: "h \<noteq> KeyboardInterrupt" and final: "KeyboardInterrupt \<notin> set final"
    and w: "KeyboardInterrupt \<notin> set (log w)"
  shows "handled h final (try_except_finally (interruptible intr body) handler fin w) \<and>
         fst (try_except_finally (interruptible intr body) handler fin w) =
           (if fst (body (w\<lparr>irq := intr\<rparr>)) = Raise then Normal
            else fst (body (w\<lparr>irq := intr\<rparr>)))"
proof -
  obtain g w1 where b: "body (w\<lparr>irq := intr\<rparr>) = (g, w1)"
    by (cases "body (w\<lparr>irq := intr\<rparr>)")
  from tidyD[OF body b] obtain es where es: "KeyboardInterrupt \<notin> set es"
    "log w1 = log w @ es @ (if g = Raise then [KeyboardInterrupt] else [])"
    by (auto simp: follows_def)
  let ?w1 = "w1\<lparr>irq := None\<rparr>"
  have i: "interruptible intr body w = (g, ?w1)"
    using b by (simp add: interruptible_def)
  show ?thesis
  proof (cases g)
    case Raise
    from runs_asD[OF handler, of ?w1] obtain w2 where
      w2: "handler ?w1 = (Normal, w2)" "irq w2 = None" "log w2 = log ?w1 @ [h]" by auto
    from runs_asD[OF fin w2(2)] obtain w3 where
      w3: "fin w2 = (Normal, w3)" "log w3 = log w2 @ final" by auto
    have r: "try_except_finally (interruptible intr body) handler fin w = (Normal, w3)"
      using i Raise w2 w3 by (simp add: try_except_finally_def)
    have l: "log w3 = (log w @ es) @ KeyboardInterrupt # h # final"
      using w3 w2 es Raise by simp
    have "count_list (log w3) KeyboardInterrupt = 1"
      unfolding l using w es(1) h final by (simp add: count_list_0_iff)
    moreover have "suffix (KeyboardInterrupt # h # final) (log w3)"
      unfolding l by (rule suffixI) simp
    moreover have "KeyboardInterrupt \<in> set (log w3)"
      unfolding l by simp
    ultimately show ?thesis
      using r b Raise by (simp add: handled_def caught_def)
  next
    case Timeout
    then show ?thesis
      using i b by (simp add: try_except_finally_def handled_def)
  next
    case Normal
    from runs_asD[OF fin, of ?w1] obtain w2 where
      w2: "fin ?w1 = (Normal, w2)" "log w2 = log ?w1 @ final" by auto
    have r: "try_except_finally (interruptible intr body) handler fin w = (Normal, w2)"
      using i Normal w2 by (simp add: try_except_finally_def)
    have l: "log w2 = (log w @ es) @ final"
      using w2 es Normal by simp
    have "KeyboardInterrupt \<notin> set (log w2)"
      unfolding l using w es(1) final by simp
    moreover have "suffix final (log w2)"
      unfolding l by (rule suffixI) simp
    ultimately show ?thesis
      using r b Normal by (simp add: handled_def)
  next
    case Break
    from runs_asD[OF fin, of ?w1] obtain w2 where
      w2: "fin ?w1 = (Normal, w2)" "log w2 = log ?w1 @ final" by auto
    have r: "try_except_finally (interruptible intr body) handler fin w = (Break, w2)"
      using i Break w2 by (simp add: try_except_finally_def)
    then show ?thesis
      using b Break by (simp add: handled_def)
  qed
qed

lemma returns_op: "returns (op e)"
  by (auto simp: returns_def op_def split: option.splits nat.splits)

lemma returns_break: "returns break_loop"
  by (simp add: returns_def break_loop_def)

lemma returns_pass: "returns pass"
  by (simp add: returns_def pass_def)

lemma returns_block: "\<forall>c \<in> set cs. returns c \<Longrightarrow> returns (block cs)"
proof (induction cs)
  case Nil
  then show ?case by (simp add: returns_def)
next
  case (Cons c cs)
  then have c: "\<And>w. fst (c w) \<noteq> Timeout" and cs: "\<And>w. fst (block cs w) \<noteq> Timeout"
    by (simp_all add: returns_def)
  have "fst (block (c # cs) w) \<noteq> Timeout" for w
    using c[of w] cs by (cases "c w") (auto split: flow.splits)
  then show ?case by (simp add: returns_def)
qed

lemma returns_py_if: "returns a \<Longrightarrow> returns b \<Longrightarrow> returns (py_if c a b)"
  by (auto simp: returns_def py_if_def split: prod.splits option.splits bool.splits)

lemma returns_py_for:
  assumes "\<And>x. returns (body x)"
  shows "returns (py_for xs body)"
proof -
  have "fst (py_for xs body w) \<noteq> Timeout" for w
  proof (induction xs arbitrary: w)
    case Nil
    then show ?case by simp
  next
    case (Cons x xs)
    from assms[of x] have "fst (body x w) \<noteq> Timeout" by (simp add: returns_def)
    with Cons.IH show ?case by (cases "body x w") (auto split: flow.splits)
  qed
  then show ?thesis by (simp add: returns_def)
qed

lemma returns_led_iteration: "returns (led_iteration s delay_on delay_off d)"
  unfolding led_iteration_def
  by (intro returns_block) (simp add: returns_op returns_py_if returns_break returns_pass)

lemma returns_ramp_step: "returns (ramp_step s d v)"
  unfolding ramp_step_def
  by (intro returns_block) (simp add: returns_op returns_py_if returns_break returns_pass)

lemma returns_pwm_iteration: "returns (pwm_iteration s d)"
  unfolding pwm_iteration_def
  by (intro returns_block)
    (simp add: returns_op returns_py_if returns_break returns_pass returns_py_for
      returns_ramp_step)

lemma within_bound_costs:
  assumes "irq w = Some k" and "within_bound s d w = (Some b, w1)"
  shows "\<exists>j<k. irq w1 = Some j"
  using assms
  by (cases k) (auto simp: within_bound_def time_time_def op_def)

lemma py_while_returns:
  assumes "tidy body" and "returns body"
  shows "irq w = Some k \<Longrightarrow> k < n \<Longrightarrow> fst (py_while n (within_bound s d) body w) \<noteq> Timeout"
proof (induction n arbitrary: w k)
  case 0
  then show ?case by simp
next
  case (Suc n)
  obtain r w1 where c: "within_bound s d w = (r, w1)" by (cases "within_bound s d w")
  show ?case
  proof (cases r)
    case None
    with c show ?thesis by simp
  next
    case (Some v)
    show ?thesis
    proof (cases v)
      case False
      with c Some show ?thesis by simp
    next
      case True
      from within_bound_costs[OF Suc.prems(1) c[unfolded Some]] obtain j where
        j: "j < k" "irq w1 = Some j" by auto
      obtain f w2 where b: "body w1 = (f, w2)" by (cases "body w1")
      from assms(2) b have nt: "f \<noteq> Timeout" by (auto simp: returns_def dest: spec[of _ w1])
      show ?thesis
      proof (cases f)
        case Normal
        with tidyD[OF assms(1) b] j(2) obtain i where i: "i \<le> j" "irq w2 = Some i"
          by (auto simp: follows_def)
        with j(1) Suc.prems(2) have "i < n" by simp
        from Suc.IH[OF i(2) this] c Some True b Normal show ?thesis by simp
      qed (use c Some True b nt in simp_all)
    qed
  qed
qed

lemma block_last: "block [c] w = c w"
  by (cases "c w") (auto split: flow.splits)

lemma block_op_cons:
  "irq w = None \<Longrightarrow>
   block (op e # cs) w = block cs (w\<lparr>now := now w + elapse e, log := log w @ [e]\<rparr>)"
  by (simp add: op_def)

lemma assign_time_None:
  "irq w = None \<Longrightarrow>
   assign time_time rest w = rest (now w) (w\<lparr>log := log w @ [TimeTime (now w)]\<rparr>)"
  by (simp add: assign_def time_time_def op_def)

lemma tidy_ops: "KeyboardInterrupt \<notin> set es \<Longrightarrow> tidy (block (map op es))"
  by (intro tidy_block) (auto intro!: tidy_op)

lemma ops_flow: "fst (block (map op es) w) = Normal \<or> fst (block (map op es) w) = Raise"
  by (cases "irq w") (auto simp: block_ops_None block_ops_Some)

lemma led_handled:
  "handled (Print [Lit ''Test stopped'']) [Value Led 0]
     (test_led fuel pin_number delay_on delay_off duration intr (power_on t0)) \<and>
   (\<forall>k. intr = Some k \<and> k < fuel \<longrightarrow>
      fst (test_led fuel pin_number delay_on delay_off duration intr (power_on t0)) = Normal)"
proof -
  let ?w = "\<lparr>now = t0, irq = None,
    log = [NewPin Led pin_number,
           Print [Lit ''Starting LED test on GPIO '', IntV pin_number, Lit '' for '',
                  NumV duration, Lit '' seconds''],
           TimeTime t0]\<rparr>"
  let ?body = "py_while fuel (within_bound t0 duration)
                 (led_iteration t0 delay_on delay_off duration)"
  have e: "test_led fuel pin_number delay_on delay_off duration intr (power_on t0) =
     try_except_finally (interruptible intr ?body)
       (op (Print [Lit ''Test stopped''])) (op (Value Led 0)) ?w"
    unfolding test_led_def
    by (simp add: block_op_cons block_last assign_time_None power_on_def del: block.simps)
  have t: "tidy ?body"
    by (intro tidy_py_while tidy_within_bound tidy_led_iteration)
  note h = try_handled[OF t runs_as_op runs_as_op, of "Print [Lit ''Test stopped'']"
      "Value Led 0" ?w intr, simplified]
  have "fst (?body (?w\<lparr>irq := intr\<rparr>)) \<noteq> Timeout" if "intr = Some k" "k < fuel" for k
    using that by (intro py_while_returns[OF tidy_led_iteration returns_led_iteration]) simp_all
  with py_while_no_break[of fuel "within_bound t0 duration"
      "led_iteration t0 delay_on delay_off duration" "?w\<lparr>irq := intr\<rparr>"] h
  show ?thesis
    unfolding e by (cases "fst (?body (?w\<lparr>irq := intr\<rparr>))") auto
qed

lemma pwm_handled:
  "handled (Print [Lit ''Test stopped'']) [DutyU16 ActuatorPwm 0]
     (test_pwm fuel pin_number duration intr (power_on t0)) \<and>
   (\<forall>k. intr = Some k \<and> k < fuel \<longrightarrow>
      fst (test_pwm fuel pin_number duration intr (power_on t0)) = Normal)"
proof -
  let ?w = "\<lparr>now = t0, irq = None,
    log = [NewPWM ActuatorPwm pin_number 1000,
           Print [Lit ''Starting PWM Test for '', NumV duration, Lit '' seconds...''],
           TimeTime t0]\<rparr>"
  let ?body = "py_while fuel (within_bound t0 duration) (pwm_iteration t0 duration)"
  have e: "test_pwm fuel pin_number duration intr (power_on t0) =
     try_except_finally (interruptible intr ?body)
       (op (Print [Lit ''Test stopped''])) (op (DutyU16 ActuatorPwm 0)) ?w"
    unfolding test_pwm_def
    by (simp add: block_op_cons block_last assign_time_None power_on_def del: block.simps)
  have t: "tidy ?body"
    by (intro tidy_py_while tidy_within_bound tidy_pwm_iteration)
  note h = try_handled[OF t runs_as_op runs_as_op, of "Print [Lit ''Test stopped'']"
      "DutyU16 ActuatorPwm 0" ?w intr, simplified]
  have "fst (?body (?w\<lparr>irq := intr\<rparr>)) \<noteq> Timeout" if "intr = Some k" "k < fuel" for k
    using that by (intro py_while_returns[OF tidy_pwm_iteration returns_pwm_iteration]) simp_all
  with py_while_no_break[of fuel "within_bound t0 duration"
      "pwm_iteration t0 duration" "?w\<lparr>irq := intr\<rparr>"] h
  show ?thesis
    unfolding e by (cases "fst (?body (?w\<lparr>irq := intr\<rparr>))") auto
qed

lemma cycle_handled:
  "handled cycle_handler cycle_final (run_one_cycle r l speed duration intr (power_on t0))"
proof -
  let ?w = "\<lparr>now = t0, irq = None, log = cycle_setup r l\<rparr>"
  have e: "run_one_cycle r l speed duration intr (power_on t0) =
     try_except_finally (interruptible intr (block (map op (cycle_body speed duration))))
       (op cycle_handler) (block (map op cycle_final)) ?w"
    unfolding run_one_cycle_def
    by (simp add: block_op_cons block_last power_on_def cycle_setup_def cycle_body_def
        cycle_handler_def cycle_final_def del: block.simps)
  have t: "tidy (block (map op (cycle_body speed duration)))"
    by (intro tidy_ops) (simp add: cycle_body_def)
  from try_handled[OF t runs_as_op runs_as_block, of cycle_handler cycle_final ?w intr]
  show ?thesis
    unfolding e by (simp add: cycle_handler_def cycle_final_def cycle_setup_def)
qed

lemma extend_handled:
  "handled only_handler extend_final (extend_only duration speed intr (power_on t0))"
proof -
  let ?w = "\<lparr>now = t0, irq = None, log = extend_setup duration speed\<rparr>"
  have e: "extend_only duration speed intr (power_on t0) =
     try_except_finally (interruptible intr (block (map op (extend_body duration speed))))
       (op only_handler) (block (map op extend_final)) ?w"
    unfolding extend_only_def
    by (simp add: block_op_cons block_last power_on_def extend_setup_def extend_body_def
        only_handler_def extend_final_def RPWM_PIN_def del: block.simps)
  have t: "tidy (block (map op (extend_body duration speed)))"
    by (intro tidy_ops) (simp add: extend_body_def)
  from try_handled[OF t runs_as_op runs_as_block, of only_handler extend_final ?w intr]
  show ?thesis
    unfolding e by (simp add: only_handler_def extend_final_def extend_setup_def)
qed

lemma retract_handled:
  "handled only_handler retract_final (retract_only duration speed intr (power_on t0))"
proof -
  let ?w = "\<lparr>now = t0, irq = None, log = retract_setup duration speed\<rparr>"
  have e: "retract_only duration speed intr (power_on t0) =
     try_except_finally (interruptible intr (block (map op (retract_body duration speed))))
       (op only_handler) (block (map op retract_final)) ?w"
    unfolding retract_only_def
    by (simp add: block_op_cons block_last power_on_def retract_setup_def retract_body_def
        only_handler_def retract_final_def RPWM_PIN_def LPWM_PIN_def del: block.simps)
  have t: "tidy (block (map op (retract_body duration speed)))"
    by (intro tidy_ops) (simp add: retract_body_def)
  from try_handled[OF t runs_as_op runs_as_block, of only_handler retract_final ?w intr]
  show ?thesis
    unfolding e by (simp add: only_handler_def retract_final_def retract_setup_def)
qed

lemma led_interrupted:
  "log (snd (test_led 10 2 2 1 10 (Some 7) (power_on 0))) =
     [NewPin Led 2,
      Print [Lit ''Starting LED test on GPIO '', IntV 2, Lit '' for '', NumV 10,
             Lit '' seconds''],
      TimeTime 0, TimeTime 0, Value Led 1, Sleep 2, TimeTime 2, Value Led 0, Sleep 1,
      TimeTime 3, KeyboardInterrupt, Print [Lit ''Test stopped''], Value Led 0]"
  by (simp add: test_led_def led_iteration_def op_def power_on_def assign_def time_time_def
      try_except_finally_def interruptible_def py_if_def within_bound_def bound_reached_def
      break_loop_def pass_def eval_nat_numeral)

subsection \<open>Claim about the handling of an interruption\<close>

text \<open>
  C8. In each of the five entry points a KeyboardInterrupt raised in the try block, at
  any of its steps, never leaves the function; a run that returned and in which the
  interruption was raised has raised it once and ends with the handler's console message
  followed by the events of the finally block, and a run that returned without it ends
  with the same events of the finally block. The three actuator functions always
  return; test_led and test_pwm return whenever the interruption comes within the
  number of loop tests the model follows.
\<close>

theorem interruption_handled:
  "handled (Print [Lit ''Test stopped'']) [Value Led 0]
     (test_led fuel pin_number delay_on delay_off duration intr (power_on t0)) \<and>
   (\<forall>k. intr = Some k \<and> k < fuel \<longrightarrow>
      fst (test_led fuel pin_number delay_on delay_off duration intr (power_on t0)) = Normal) \<and>
   handled (Print [Lit ''Test stopped'']) [DutyU16 ActuatorPwm 0]
     (test_pwm fuel pin_number duration intr (power_on t0)) \<and>
   (\<forall>k. intr = Some k \<and> k < fuel \<longrightarrow>
      fst (test_pwm fuel pin_number duration intr (power_on t0)) = Normal) \<and>
   handled cycle_handler cycle_final (run_one_cycle r l speed duration intr (power_on t0)) \<and>
   fst (run_one_cycle r l speed duration intr (power_on t0)) = Normal \<and>
   handled only_handler extend_final (extend_only duration speed intr (power_on t0)) \<and>
   fst (extend_only duration speed intr (power_on t0)) = Normal \<and>
   handled only_handler retract_final (retract_only duration speed intr (power_on t0)) \<and>
   fst (retract_only duration speed intr (power_on t0)) = Normal"
  using led_handled[of fuel pin_number delay_on delay_off duration intr t0]
    pwm_handled[of fuel pin_number duration intr t0]
    cycle_handled[of r l speed duration intr t0]
    extend_handled[of duration speed intr t0]
    retract_handled[of duration speed intr t0]
    actuator_flows(1)[of r l speed duration intr t0]
    actuator_flows(2)[of duration speed intr t0]
    actuator_flows(3)[of duration speed intr t0]
  by blast

theorem interruption_handled_witness:
  "fst (test_led 10 2 2 1 10 (Some 7) (power_on 0)) = Normal \<and>
   KeyboardInterrupt \<in> set (log (snd (test_led 10 2 2 1 10 (Some 7) (power_on 0)))) \<and>
   caught (Print [Lit ''Test stopped'']) [Value Led 0]
     (log (snd (test_led 10 2 2 1 10 (Some 7) (power_on 0))))"
proof -
  have i: "KeyboardInterrupt \<in> set (log (snd (test_led 10 2 2 1 10 (Some 7) (power_on 0))))"
    unfolding led_interrupted by simp
  from interruption_handled[of 10 2 2 1 10 "Some 7" 0 26 27 100] i show ?thesis
    by (simp add: handled_def)
qed

end
